theory Spec2Isabelle
  imports Main "HOL-Library.Sublist" "HOL-Library.AList" "HOL-Library.Word"
begin

section \<open>Values defined by the repository's sources\<close>

text \<open>
  The interpreter core (package \<open>pkgscript\<close>) is not among the sources; what the
  sources define are host values that plug into it: \<open>hasfields\<close>, \<open>fib\<close> and
  \<open>badType\<close> in the evaluator tests, \<open>symbol\<close> in the struct tests, and \<open>Module\<close> in
  \<open>pkgscriptstruct/module.go\<close>, together with the \<open>freeze\<close> built-in of the test helper
  package.

  A \<open>*hasfields\<close> is a pointer to a mutable object, so it is an address into an explicit
  store. A module that a program holds is one that \<open>MakeModule\<close> built from keyword
  arguments: no operation of the sources mutates it and its members are values of the
  language, so as a value it is carried whole, its name and its members. (The Go struct
  \<open>Module\<close> itself, whose exported \<open>Members\<close> map a host can fill with anything, nil
  included, is the record \<open>Module\<close> below; \<open>Module.Attr\<close> is modelled on that.)
  \<open>None\<close>, integers and strings are the immutable constants the tests pass around;
  \<open>fib\<close> and \<open>symbol\<close> have an empty \<open>Freeze\<close> method in the sources.
\<close>

datatype val =
    NoneV
  | IntV int
  | StringV string
  | FibV
  | SymbolV string
  | HasFieldsP nat
  | ModuleP string "(string \<times> val) list"

text \<open>
  Go's \<open>error\<close> results: an ordinary error made by \<open>fmt.Errorf\<close>, or the
  \<open>NoSuchAttrError\<close> sentinel type.
\<close>

datatype error = Error string | NoSuchAttrError string

text \<open>
  \<^verbatim>\<open>type hasfields struct { attrs pkgscript.StringDict; frozen bool }\<close>
  A \<open>StringDict\<close> is a Go map from strings to values; it is an association list here,
  read with \<open>map_of\<close> and written with \<open>AList.update\<close>.
\<close>

record hasfields =
  attrs :: "(string \<times> val) list"
  frozen :: bool

type_synonym heap = "hasfields list"

text \<open>
  Dereferencing a pointer. Go pointers made by \<open>newHasFields\<close> always point at a live
  object; an address outside the store stands for a nil pointer, whose dereference panics:
  the operations below return \<open>None\<close> (no result) there.
\<close>

definition deref :: "heap \<Rightarrow> nat \<Rightarrow> hasfields option" where
  "deref h a = (if a < length h then Some (h ! a) else None)"

subsection \<open>hasfields\<close>

text \<open>
  \<^verbatim>\<open>
  func newHasFields(thread, b, args, kwargs) (pkgscript.Value, error) {
      if len(args)+len(kwargs) > 0 {
          return nil, fmt.Errorf("%s: unexpected arguments", b.Name())
      }
      return &hasfields{attrs: make(map[string]pkgscript.Value)}, nil
  }\<close>
\<close>

definition newHasFields ::
  "heap \<Rightarrow> string \<Rightarrow> val list \<Rightarrow> (val \<times> val) list \<Rightarrow> heap \<times> (error + val)" where
  "newHasFields h bname args kwargs =
     (if length args + length kwargs > 0
      then (h, Inl (Error (bname @ '': unexpected arguments'')))
      else (h @ [\<lparr>attrs = [], frozen = False\<rparr>], Inr (HasFieldsP (length h))))"

text \<open>
  \<^verbatim>\<open>func (hf *hasfields) Attr(name string) (pkgscript.Value, error) { return hf.attrs[name], nil }\<close>
  The first component is Go's possibly-nil \<open>Value\<close>, the second Go's possibly-nil \<open>error\<close>.
\<close>

definition hasfields_Attr :: "heap \<Rightarrow> nat \<Rightarrow> string \<Rightarrow> (val option \<times> error option) option" where
  "hasfields_Attr h a name =
     (case deref h a of
        None \<Rightarrow> None
      | Some hf \<Rightarrow> Some (map_of (attrs hf) name, None))"

text \<open>
  \<^verbatim>\<open>
  func (hf *hasfields) SetField(name string, val pkgscript.Value) error {
      if hf.frozen {
          return fmt.Errorf("cannot set field on a frozen hasfields")
      }
      if strings.HasPrefix(name, "no") { // for testing
          return pkgscript.NoSuchAttrError(fmt.Sprintf("no .%s field", name))
      }
      hf.attrs[name] = val
      return nil
  }\<close>
\<close>

definition SetField :: "heap \<Rightarrow> nat \<Rightarrow> string \<Rightarrow> val \<Rightarrow> (heap \<times> error option) option" where
  "SetField h a name v =
     (case deref h a of
        None \<Rightarrow> None
      | Some hf \<Rightarrow>
          if frozen hf then Some (h, Some (Error ''cannot set field on a frozen hasfields''))
          else if prefix ''no'' name
          then Some (h, Some (NoSuchAttrError (''no .'' @ name @ '' field'')))
          else Some (h[a := hf\<lparr>attrs := AList.update name v (attrs hf)\<rparr>], None))"

subsection \<open>Freeze\<close>

text \<open>
  \<^verbatim>\<open>
  func (hf *hasfields) Freeze() {
      if !hf.frozen {
          hf.frozen = true
          for _, v := range hf.attrs {
              v.Freeze()
          }
      }
  }
  func (m *Module) Freeze() { m.Members.Freeze() }
  func (t fib) Freeze()     {}
  func (sym *symbol) Freeze() {} // immutable\<close>
  \<open>Freeze\<close> is the dynamic dispatch \<open>v.Freeze()\<close> on the value's kind, \<open>FreezeEach\<close> the
  loop \<open>for _, v := range hf.attrs { v.Freeze() }\<close>. Objects may point at each other in
  cycles, and the recursion follows the pointers, so the function takes fuel: one unit
  for every \<open>hasfields\<close> pointer followed. \<open>None\<close> means that the call did not return (out
  of fuel, or a nil pointer). Go ranges over a map in an unspecified order; the list order
  stands for whichever order the run picks.
\<close>

text \<open>
  Modelled from the spec: \<open>StringDict.Freeze\<close>, which \<open>Module.Freeze\<close> calls on the members,
  and the \<open>Freeze\<close> methods of \<open>None\<close>, \<open>Int\<close> and \<open>String\<close>; they belong to package
  \<open>pkgscript\<close>, which is not among the sources. The spec: "Freezing a container
  recursively freezes its elements", so \<open>Members.Freeze()\<close> is the same loop over the
  entries, \<open>FreezeEach\<close>; and \<open>None\<close>, \<open>Int\<close> and \<open>String\<close> are immutable, so freezing them
  changes nothing. The equations for \<open>hasfields\<close>, \<open>fib\<close> and \<open>symbol\<close> are the source's.
\<close>

function Freeze :: "nat \<Rightarrow> heap \<Rightarrow> val \<Rightarrow> heap option"
  and FreezeEach :: "nat \<Rightarrow> heap \<Rightarrow> (string \<times> val) list \<Rightarrow> heap option" where
  "Freeze n h NoneV = Some h"
| "Freeze n h (IntV i) = Some h"
| "Freeze n h (StringV s) = Some h"
| "Freeze n h FibV = Some h"
| "Freeze n h (SymbolV s) = Some h"
| "Freeze n h (ModuleP name ms) = FreezeEach n h ms"
| "Freeze 0 h (HasFieldsP a) = None"
| "Freeze (Suc n) h (HasFieldsP a) =
     (if a < length h then
        (if \<not> frozen (h ! a)
         then FreezeEach n (h[a := (h ! a)\<lparr>frozen := True\<rparr>]) (attrs (h ! a))
         else Some h)
      else None)"
| "FreezeEach n h [] = Some h"
| "FreezeEach n h (kv # kvs) =
     (case Freeze n h (snd kv) of
        None \<Rightarrow> None
      | Some h' \<Rightarrow> FreezeEach n h' kvs)"
  by pat_completeness auto
termination
  by (relation "inv_image (less_than <*lex*> less_than)
        (\<lambda>x. case x of
           Inl (n, h, v) \<Rightarrow> (n, size v)
         | Inr (n, h, kvs) \<Rightarrow> (n, size_list (size_prod (\<lambda>_. 0) size) kvs))")
     (auto simp: less_Suc_eq_le)

text \<open>Go's \<open>%d\<close> of a length.\<close>

fun show_nat :: "nat \<Rightarrow> string" where
  "show_nat n =
     (if n < 10 then [char_of (48 + n)]
      else show_nat (n div 10) @ [char_of (48 + n mod 10)])"

text \<open>
  The built-in of the test helper package:
  \<^verbatim>\<open>
  func freeze(thread, _, args pkgscript.Tuple, kwargs []pkgscript.Tuple) (pkgscript.Value, error) {
      if len(kwargs) > 0 {
          return nil, fmt.Errorf("freeze does not accept keyword arguments")
      }
      if len(args) != 1 {
          return nil, fmt.Errorf("freeze got %d arguments, wants 1", len(args))
      }
      args[0].Freeze()
      return args[0], nil
  }\<close>
\<close>

definition freeze ::
  "nat \<Rightarrow> heap \<Rightarrow> val list \<Rightarrow> (val \<times> val) list \<Rightarrow> (heap \<times> (error + val)) option" where
  "freeze fuel h args kwargs =
     (if length kwargs > 0
      then Some (h, Inl (Error ''freeze does not accept keyword arguments''))
      else if length args \<noteq> 1
      then Some (h, Inl (Error (''freeze got '' @ show_nat (length args) @ '' arguments, wants 1'')))
      else (case Freeze fuel h (args ! 0) of
              None \<Rightarrow> None
            | Some h' \<Rightarrow> Some (h', Inr (args ! 0))))"

subsection \<open>The object graph\<close>

text \<open>
  The \<open>hasfields\<close> pointers a value holds: itself if it is one, and those of its members
  if it is a module (members of members included). \<open>kids h a\<close> are the pointers held by
  the fields of the object at \<open>a\<close>, and \<open>reaches h a b\<close> says that \<open>b\<close> is \<open>a\<close> or a
  transitive descendant of it.
\<close>

fun refs :: "val \<Rightarrow> nat list"
  and refs_each :: "(string \<times> val) list \<Rightarrow> nat list" where
  "refs (HasFieldsP a) = [a]"
| "refs (ModuleP name ms) = refs_each ms"
| "refs NoneV = []"
| "refs (IntV i) = []"
| "refs (StringV s) = []"
| "refs FibV = []"
| "refs (SymbolV s) = []"
| "refs_each [] = []"
| "refs_each (kv # kvs) = refs (snd kv) @ refs_each kvs"

definition kids :: "heap \<Rightarrow> nat \<Rightarrow> nat list" where
  "kids h a = refs_each (attrs (h ! a))"

inductive reaches :: "heap \<Rightarrow> nat \<Rightarrow> nat \<Rightarrow> bool" for h where
  here: "reaches h a a"
| step: "reaches h a b \<Longrightarrow> b < length h \<Longrightarrow> c \<in> set (kids h b) \<Longrightarrow> reaches h a c"

text \<open>
  The measure that bounds the recursion of \<open>Freeze\<close>: the number of objects not yet
  frozen.
\<close>

definition unfrozen_count :: "heap \<Rightarrow> nat" where
  "unfrozen_count h = length (filter (\<lambda>hf. \<not> frozen hf) h)"

text \<open>
  Well-formed stores. \<open>in_heap\<close>: pointers are live. \<open>wf_heap\<close>: every pointer held by a
  field is live. \<open>frozen_closed\<close>: the fields of a frozen object hold frozen objects only.
  \<open>heap_ok\<close> is both; it holds of every store the operations build from the empty one
  (\<open>api_heap\<close>, whose rules are the calls a program can make).
\<close>

definition in_heap :: "heap \<Rightarrow> nat list \<Rightarrow> bool" where
  "in_heap h as = list_all (\<lambda>a. a < length h) as"

definition wf_heap :: "heap \<Rightarrow> bool" where
  "wf_heap h = list_all (\<lambda>hf. in_heap h (refs_each (attrs hf))) h"

definition all_frozen :: "heap \<Rightarrow> nat list \<Rightarrow> bool" where
  "all_frozen h as = list_all (\<lambda>a. a < length h \<and> frozen (h ! a)) as"

definition frozen_closed :: "heap \<Rightarrow> bool" where
  "frozen_closed h = list_all (\<lambda>hf. frozen hf \<longrightarrow> all_frozen h (refs_each (attrs hf))) h"

definition heap_ok :: "heap \<Rightarrow> bool" where
  "heap_ok h \<longleftrightarrow> wf_heap h \<and> frozen_closed h"

inductive api_heap :: "heap \<Rightarrow> bool" where
  empty: "api_heap []"
| new: "api_heap h \<Longrightarrow> newHasFields h bname args kwargs = (h', r) \<Longrightarrow> api_heap h'"
| setfield: "api_heap h \<Longrightarrow> in_heap h (refs x) \<Longrightarrow> SetField h a name x = Some (h', e) \<Longrightarrow>
     api_heap h'"
| frozen: "api_heap h \<Longrightarrow> freeze n h args kwargs = Some (h', r) \<Longrightarrow> api_heap h'"

text \<open>
  Two relations between the store before and after a call, used in the proofs:
  the later store has the same objects with the same fields, and whatever was frozen
  still is; and every object the call froze has frozen children afterwards.
\<close>

definition freezes_more :: "heap \<Rightarrow> heap \<Rightarrow> bool" where
  "freezes_more h h' \<longleftrightarrow>
     length h' = length h \<and>
     (\<forall>a < length h. attrs (h' ! a) = attrs (h ! a) \<and> (frozen (h ! a) \<longrightarrow> frozen (h' ! a)))"

definition newly_closed :: "heap \<Rightarrow> heap \<Rightarrow> bool" where
  "newly_closed h h' \<longleftrightarrow>
     (\<forall>a < length h. frozen (h' ! a) \<and> \<not> frozen (h ! a) \<longrightarrow> all_frozen h' (kids h a))"

subsection \<open>Module\<close>

text \<open>
  \<^verbatim>\<open>
  type Module struct {
      Name    string
      Members pkgscript.StringDict
  }\<close>
  A \<open>StringDict\<close> is a Go \<open>map[string]Value\<close>, and \<open>Value\<close> is an interface: an entry of
  the map may hold nil. The struct and its fields are exported, so a host can build a
  module whose member is nil. A possibly-nil \<open>Value\<close> is a \<open>val option\<close>, \<open>None\<close> being nil.
\<close>

record Module =
  Name :: string
  Members :: "(string \<times> val option) list"

text \<open>
  \<^verbatim>\<open>func (m *Module) Attr(name string) (pkgscript.Value, error) { return m.Members[name], nil }\<close>
  Indexing a Go map gives the entry's value, nil if that is what the entry holds, and the
  zero value, again nil, at a missing key. The second component is Go's \<open>error\<close>, \<open>None\<close>
  being nil.
\<close>

definition Module_Attr :: "Module \<Rightarrow> string \<Rightarrow> val option \<times> error option" where
  "Module_Attr m name =
     ((case map_of (Members m) name of None \<Rightarrow> None | Some v \<Rightarrow> v), None)"

subsection \<open>Int\<close>

text \<open>
  Go's \<open>math.MinInt64\<close>, \<open>math.MaxInt64\<close> and \<open>math.MaxUint64\<close>, which \<open>TestInt\<close> builds
  its table from.
\<close>

definition MinInt64 :: int where "MinInt64 = - (2 ^ 63)"

definition MaxInt64 :: int where "MaxInt64 = 2 ^ 63 - 1"

definition MaxUint64 :: int where "MaxUint64 = 2 ^ 64 - 1"

text \<open>
  Modelled from the spec: \<open>Int.Int64\<close> (\<open>to_i64\<close>), a method of package \<open>pkgscript\<close>, which
  is not among the sources; only its test \<open>TestInt\<close> is. The spec: an \<open>Int\<close> is an
  arbitrary-precision integer, and "\<open>Int.to_i64\<close> / \<open>Int.to_u64\<close> succeed iff the magnitude
  fits, else fail". The value fits when the 64-bit two's complement word made from it
  reads back as the value; Go's \<open>(int64, ok)\<close> result is \<open>Some\<close> of the word when \<open>ok\<close>.
\<close>

definition Int64 :: "int \<Rightarrow> 64 word option" where
  "Int64 v = (let w = word_of_int v in if sint w = v then Some w else None)"

text \<open>
  Modelled from the spec: \<open>Int.Uint64\<close> (\<open>to_u64\<close>), absent from the sources like \<open>Int64\<close>;
  the same sentence of the spec, with the word read as unsigned.
\<close>

definition Uint64 :: "int \<Rightarrow> 64 word option" where
  "Uint64 v = (let w = word_of_int v in if uint w = v then Some w else None)"

section \<open>Freezing\<close>

subsection \<open>What a call of Freeze changes\<close>

lemma all_frozen_Nil [simp]: "all_frozen h []"
  by (simp add: all_frozen_def)

lemma all_frozen_append [simp]: "all_frozen h (xs @ ys) \<longleftrightarrow> all_frozen h xs \<and> all_frozen h ys"
  by (simp add: all_frozen_def)

lemma in_heap_Nil [simp]: "in_heap h []"
  by (simp add: in_heap_def)

lemma in_heap_append [simp]: "in_heap h (xs @ ys) \<longleftrightarrow> in_heap h xs \<and> in_heap h ys"
  by (simp add: in_heap_def)

lemma freezes_more_refl: "freezes_more h h"
  by (simp add: freezes_more_def)

lemma freezes_more_trans: "freezes_more h h1 \<Longrightarrow> freezes_more h1 h2 \<Longrightarrow> freezes_more h h2"
  by (simp add: freezes_more_def)

lemma freezes_more_set_frozen:
  "a < length h \<Longrightarrow> freezes_more h (h[a := (h ! a)\<lparr>frozen := True\<rparr>])"
  by (simp add: freezes_more_def nth_list_update)

lemma all_frozen_mono: "freezes_more h h' \<Longrightarrow> all_frozen h as \<Longrightarrow> all_frozen h' as"
  by (auto simp: freezes_more_def all_frozen_def list_all_iff)

lemma kids_mono: "freezes_more h h' \<Longrightarrow> a < length h \<Longrightarrow> kids h' a = kids h a"
  by (simp add: freezes_more_def kids_def)

lemma Freeze_freezes_more:
  "Freeze n h v = Some h' \<Longrightarrow> freezes_more h h'"
  "FreezeEach n h kvs = Some h' \<Longrightarrow> freezes_more h h'"
proof (induction n h v and n h kvs arbitrary: h' and h' rule: Freeze_FreezeEach.induct)
  case (8 n h a)
  show ?case
  proof (cases "frozen (h ! a)")
    case True
    with 8 show ?thesis by (auto simp: freezes_more_refl split: if_splits)
  next
    case False
    with 8 have a: "a < length h"
      and run: "FreezeEach n (h[a := (h ! a)\<lparr>frozen := True\<rparr>]) (attrs (h ! a)) = Some h'"
      by (auto split: if_splits)
    from 8(1) [OF a False run] freezes_more_set_frozen [OF a]
    show ?thesis by (rule freezes_more_trans [rotated])
  qed
next
  case (10 n h kv kvs)
  from 10(3) obtain h1 where 1: "Freeze n h (snd kv) = Some h1"
    and 2: "FreezeEach n h1 kvs = Some h'"
    by (auto split: option.splits)
  from 10(1) [OF 1] 10(2) [OF 1 2] show ?case by (rule freezes_more_trans)
qed (auto simp: freezes_more_refl)


lemma Freeze_post:
  "Freeze n h v = Some h' \<Longrightarrow> all_frozen h' (refs v) \<and> newly_closed h h'"
  "FreezeEach n h kvs = Some h' \<Longrightarrow> all_frozen h' (refs_each kvs) \<and> newly_closed h h'"
proof (induction n h v and n h kvs arbitrary: h' and h' rule: Freeze_FreezeEach.induct)
  case (6 n h name ms)
  then show ?case by simp
next
  case (8 n h a)
  show ?case
  proof (cases "frozen (h ! a)")
    case True
    with 8 show ?thesis
      by (auto simp: all_frozen_def newly_closed_def split: if_splits)
  next
    case False
    let ?h1 = "h[a := (h ! a)\<lparr>frozen := True\<rparr>]"
    from 8 False have a: "a < length h"
      and run: "FreezeEach n ?h1 (attrs (h ! a)) = Some h'"
      by (auto split: if_splits)
    have m1: "freezes_more h ?h1" by (rule freezes_more_set_frozen [OF a])
    have m2: "freezes_more ?h1 h'" by (rule Freeze_freezes_more(2) [OF run])
    from 8(1) [OF a False run]
    have kids_a: "all_frozen h' (refs_each (attrs (h ! a)))" and nc: "newly_closed ?h1 h'"
      by simp_all
    have "frozen (?h1 ! a)" using a by simp
    with m2 a have fa: "a < length h' \<and> frozen (h' ! a)"
      by (simp add: freezes_more_def)
    have "newly_closed h h'"
      unfolding newly_closed_def
    proof (intro allI impI)
      fix b assume b: "b < length h" and new: "frozen (h' ! b) \<and> \<not> frozen (h ! b)"
      show "all_frozen h' (kids h b)"
      proof (cases "b = a")
        case True
        with kids_a show ?thesis by (simp add: kids_def)
      next
        case False
        with b new have "frozen (h' ! b) \<and> \<not> frozen (?h1 ! b)" by simp
        with nc b have "all_frozen h' (kids ?h1 b)" by (simp add: newly_closed_def)
        with kids_mono [OF m1 b] show ?thesis by simp
      qed
    qed
    with fa show ?thesis by (simp add: all_frozen_def)
  qed
next
  case (10 n h kv kvs)
  from 10(3) obtain h1 where 1: "Freeze n h (snd kv) = Some h1"
    and 2: "FreezeEach n h1 kvs = Some h'"
    by (auto split: option.splits)
  have m1: "freezes_more h h1" by (rule Freeze_freezes_more(1) [OF 1])
  have m2: "freezes_more h1 h'" by (rule Freeze_freezes_more(2) [OF 2])
  from 10(1) [OF 1] have f1: "all_frozen h1 (refs (snd kv))" and nc1: "newly_closed h h1"
    by simp_all
  from 10(2) [OF 1 2] have f2: "all_frozen h' (refs_each kvs)" and nc2: "newly_closed h1 h'"
    by simp_all
  have "newly_closed h h'"
    unfolding newly_closed_def
  proof (intro allI impI)
    fix b assume b: "b < length h" and new: "frozen (h' ! b) \<and> \<not> frozen (h ! b)"
    from m1 b have b1: "b < length h1" by (simp add: freezes_more_def)
    show "all_frozen h' (kids h b)"
    proof (cases "frozen (h1 ! b)")
      case True
      with nc1 b new have "all_frozen h1 (kids h b)" by (simp add: newly_closed_def)
      then show ?thesis by (rule all_frozen_mono [OF m2])
    next
      case False
      with nc2 b1 new have "all_frozen h' (kids h1 b)" by (simp add: newly_closed_def)
      with kids_mono [OF m1 b] show ?thesis by simp
    qed
  qed
  with f2 all_frozen_mono [OF m2 f1] show ?case by simp
qed (simp_all add: newly_closed_def)

subsection \<open>Freeze returns\<close>

lemma filter_length_pointwise:
  "length xs = length ys \<Longrightarrow> (\<forall>i < length xs. P (ys ! i) \<longrightarrow> P (xs ! i)) \<Longrightarrow>
   length (filter P ys) \<le> length (filter P xs)"
proof (induction xs ys rule: list_induct2)
  case Nil
  then show ?case by simp
next
  case (Cons x xs y ys)
  from Cons.prems have hd: "P y \<longrightarrow> P x" by auto
  from Cons.prems have "\<forall>i < length xs. P (ys ! i) \<longrightarrow> P (xs ! i)" by auto
  with Cons.IH have "length (filter P ys) \<le> length (filter P xs)" by simp
  with hd show ?case by auto
qed

lemma unfrozen_count_mono: "freezes_more h h' \<Longrightarrow> unfrozen_count h' \<le> unfrozen_count h"
  unfolding unfrozen_count_def
  by (rule filter_length_pointwise) (auto simp: freezes_more_def)

lemma filter_length_update:
  "a < length xs \<Longrightarrow> P (xs ! a) \<Longrightarrow> \<not> P y \<Longrightarrow>
   Suc (length (filter P (xs[a := y]))) = length (filter P xs)"
proof (induction xs arbitrary: a)
  case Nil
  then show ?case by simp
next
  case (Cons x xs)
  then show ?case by (cases a) auto
qed

lemma unfrozen_count_set_frozen:
  "a < length h \<Longrightarrow> \<not> frozen (h ! a) \<Longrightarrow>
   Suc (unfrozen_count (h[a := (h ! a)\<lparr>frozen := True\<rparr>])) = unfrozen_count h"
  unfolding unfrozen_count_def
  by (rule filter_length_update) simp_all

lemma wf_heap_nth: "wf_heap h \<Longrightarrow> a < length h \<Longrightarrow> in_heap h (refs_each (attrs (h ! a)))"
  by (simp add: wf_heap_def list_all_length)

lemma wf_heap_mono: "freezes_more h h' \<Longrightarrow> wf_heap h \<Longrightarrow> wf_heap h'"
  by (simp add: wf_heap_def freezes_more_def list_all_length in_heap_def)

lemma Freeze_returns:
  "wf_heap h \<Longrightarrow> in_heap h (refs v) \<Longrightarrow> unfrozen_count h < n \<Longrightarrow> \<exists>h'. Freeze n h v = Some h'"
  "wf_heap h \<Longrightarrow> in_heap h (refs_each kvs) \<Longrightarrow> unfrozen_count h < n \<Longrightarrow>
     \<exists>h'. FreezeEach n h kvs = Some h'"
proof (induction n h v and n h kvs rule: Freeze_FreezeEach.induct)
  case (6 n h name ms)
  then show ?case by simp
next
  case (8 n h a)
  from 8(3) have a: "a < length h" by (simp add: in_heap_def)
  show ?case
  proof (cases "frozen (h ! a)")
    case True
    with a show ?thesis by simp
  next
    case False
    let ?h1 = "h[a := (h ! a)\<lparr>frozen := True\<rparr>]"
    have m1: "freezes_more h ?h1" by (rule freezes_more_set_frozen [OF a])
    have wf1: "wf_heap ?h1" by (rule wf_heap_mono [OF m1 8(2)])
    have "in_heap h (refs_each (attrs (h ! a)))" by (rule wf_heap_nth [OF 8(2) a])
    then have in1: "in_heap ?h1 (refs_each (attrs (h ! a)))" by (simp add: in_heap_def)
    from unfrozen_count_set_frozen [OF a False] 8(4) have "unfrozen_count ?h1 < n" by simp
    from 8(1) [OF a False wf1 in1 this] a False show ?thesis by simp
  qed
next
  case (10 n h kv kvs)
  from 10(4) have in_kv: "in_heap h (refs (snd kv))" and in_kvs: "in_heap h (refs_each kvs)"
    by simp_all
  from 10(1) [OF 10(3) in_kv 10(5)] obtain h1 where 1: "Freeze n h (snd kv) = Some h1" ..
  have m1: "freezes_more h h1" by (rule Freeze_freezes_more(1) [OF 1])
  have wf1: "wf_heap h1" by (rule wf_heap_mono [OF m1 10(3)])
  from m1 in_kvs have in1: "in_heap h1 (refs_each kvs)"
    by (simp add: in_heap_def freezes_more_def)
  from unfrozen_count_mono [OF m1] 10(5) have "unfrozen_count h1 < n" by simp
  from 10(2) [OF 1 wf1 in1 this] 1 show ?case by simp
qed simp_all


subsection \<open>Frozen objects hold frozen objects\<close>

lemma frozen_closed_nth:
  "frozen_closed h \<longleftrightarrow> (\<forall>a < length h. frozen (h ! a) \<longrightarrow> all_frozen h (kids h a))"
  by (simp add: frozen_closed_def kids_def list_all_length)

lemma frozen_closed_after:
  assumes c: "frozen_closed h" and m: "freezes_more h h'" and n: "newly_closed h h'"
  shows "frozen_closed h'"
  unfolding frozen_closed_nth
proof (intro allI impI)
  fix a assume a': "a < length h'" and fr: "frozen (h' ! a)"
  from m a' have a: "a < length h" by (simp add: freezes_more_def)
  have "all_frozen h' (kids h a)"
  proof (cases "frozen (h ! a)")
    case True
    with c a have "all_frozen h (kids h a)" by (simp add: frozen_closed_nth)
    then show ?thesis by (rule all_frozen_mono [OF m])
  next
    case False
    with n a fr show ?thesis by (simp add: newly_closed_def)
  qed
  with kids_mono [OF m a] show "all_frozen h' (kids h' a)" by simp
qed

lemma Freeze_heap_ok: "heap_ok h \<Longrightarrow> Freeze n h v = Some h' \<Longrightarrow> heap_ok h'"
  unfolding heap_ok_def
  using Freeze_freezes_more(1) [of n h v h'] Freeze_post(1) [of n h v h']
  by (auto intro: wf_heap_mono frozen_closed_after)

lemma reaches_frozen:
  assumes cl: "frozen_closed h" and r: "reaches h a b"
  shows "a < length h \<Longrightarrow> frozen (h ! a) \<Longrightarrow> b < length h \<and> frozen (h ! b)"
  using r
proof (induction rule: reaches.induct)
  case here
  then show ?case by simp
next
  case (step a b d)
  then have "b < length h \<and> frozen (h ! b)" by simp
  with cl have "all_frozen h (kids h b)" by (simp add: frozen_closed_nth)
  with step.hyps(3) show ?case by (simp add: all_frozen_def list_all_iff)
qed

lemma SetField_frozen:
  "a < length h \<Longrightarrow> frozen (h ! a) \<Longrightarrow>
   SetField h a name x = Some (h, Some (Error ''cannot set field on a frozen hasfields''))"
  by (simp add: SetField_def deref_def)

lemma hasfields_Attr_mono: "freezes_more h h' \<Longrightarrow> hasfields_Attr h' a name = hasfields_Attr h a name"
  by (simp add: hasfields_Attr_def deref_def freezes_more_def)

subsection \<open>Every store a program builds is well-formed\<close>

lemma heap_ok_empty: "heap_ok []"
  by (simp add: heap_ok_def wf_heap_def frozen_closed_def)

lemma newHasFields_heap_ok:
  assumes "heap_ok h" and "newHasFields h bname args kwargs = (h', r)"
  shows "heap_ok h'"
proof (cases "length args + length kwargs > 0")
  case True
  with assms show ?thesis by (simp add: newHasFields_def)
next
  case False
  with assms(2) have h': "h' = h @ [\<lparr>attrs = [], frozen = False\<rparr>]"
    by (simp add: newHasFields_def)
  from assms(1) show ?thesis
    unfolding h' heap_ok_def wf_heap_def frozen_closed_def in_heap_def all_frozen_def list_all_iff
    by (fastforce simp: nth_append less_Suc_eq)
qed

lemma wf_heap_nth_iff: "wf_heap h \<longleftrightarrow> (\<forall>a < length h. in_heap h (kids h a))"
  by (simp add: wf_heap_def kids_def list_all_length)

lemma refs_each_update:
  "set (refs_each (AList.update k v al)) \<subseteq> set (refs v) \<union> set (refs_each al)"
  by (induction al) auto

lemma SetField_heap_ok:
  assumes ok: "heap_ok h" and x: "in_heap h (refs x)"
    and run: "SetField h a name x = Some (h', e)"
  shows "heap_ok h'"
proof (cases "h' = h")
  case True
  with ok show ?thesis by simp
next
  case False
  with run have a: "a < length h" and nf: "\<not> frozen (h ! a)"
    and h': "h' = h[a := (h ! a)\<lparr>attrs := AList.update name x (attrs (h ! a))\<rparr>]"
    by (auto simp: SetField_def deref_def split: if_splits)
  from ok have wf: "\<forall>b < length h. in_heap h (kids h b)"
    and cl: "\<forall>b < length h. frozen (h ! b) \<longrightarrow> all_frozen h (kids h b)"
    by (simp_all add: heap_ok_def wf_heap_nth_iff frozen_closed_nth)
  have len: "length h' = length h" by (simp add: h')
  have other: "h' ! b = h ! b" if "b \<noteq> a" for b using that by (simp add: h')
  have fr: "frozen (h' ! b) = frozen (h ! b)" if "b < length h" for b
    using that by (cases "b = a") (simp_all add: h')
  have "in_heap h' (kids h' b)" if b: "b < length h'" for b
  proof (cases "b = a")
    case True
    have "set (kids h' a) \<subseteq> set (refs x) \<union> set (kids h a)"
      using a refs_each_update [of name x "attrs (h ! a)"] by (simp add: h' kids_def)
    with x wf a True show ?thesis by (auto simp: in_heap_def list_all_iff len)
  next
    case False
    with wf b show ?thesis by (simp add: kids_def other in_heap_def len)
  qed
  moreover have "all_frozen h' (kids h' b)" if b: "b < length h'" and f: "frozen (h' ! b)" for b
  proof -
    from b f nf have ba: "b \<noteq> a" by (auto simp: fr len)
    with cl b f have "all_frozen h (kids h b)" by (simp add: other len)
    then have "all_frozen h' (kids h b)"
      by (auto simp: all_frozen_def list_all_iff len fr)
    with ba show ?thesis by (simp add: kids_def other)
  qed
  ultimately show ?thesis by (simp add: heap_ok_def wf_heap_nth_iff frozen_closed_nth)
qed

lemma freeze_heap_ok:
  assumes "heap_ok h" and "freeze n h args kwargs = Some (h', r)"
  shows "heap_ok h'"
  using assms Freeze_heap_ok [of h n "args ! 0" h']
  by (auto simp: freeze_def split: if_splits option.splits)

lemma api_heap_ok: "api_heap h \<Longrightarrow> heap_ok h"
proof (induction rule: api_heap.induct)
  case empty
  show ?case by (rule heap_ok_empty)
next
  case (new h bname args kwargs h' r)
  then show ?case by (blast intro: newHasFields_heap_ok)
next
  case (setfield h x a name h' e)
  then show ?case by (blast intro: SetField_heap_ok)
next
  case (frozen h n args kwargs h' r)
  then show ?case by (blast intro: freeze_heap_ok)
qed

subsection \<open>After freeze, mutation fails\<close>

text \<open>
  C3: for every value \<open>v\<close>, \<open>freeze(v)\<close> returns (\<open>v\<close> itself), having frozen \<open>v\<close> and,
  recursively, what it contains; afterwards every mutation of \<open>v\<close> or of a transitive
  descendant of \<open>v\<close> fails with the frozen-mutation error (\<open>SetField\<close> is the one mutation
  the sources define), while reads (\<open>Attr\<close>) answer as before. The store is any
  well-formed one, cycles included, and any fuel above the number of unfrozen objects is
  enough for the call to return.
\<close>

theorem freeze_makes_descendants_immutable:
  assumes ok: "heap_ok h" and v: "in_heap h (refs v)" and fuel: "unfrozen_count h < fuel"
  shows "\<exists>h'. freeze fuel h [v] [] = Some (h', Inr v) \<and>
           (\<forall>a \<in> set (refs v). \<forall>b. reaches h' a b \<longrightarrow>
              (\<forall>name x. SetField h' b name x =
                 Some (h', Some (Error ''cannot set field on a frozen hasfields'')))) \<and>
           (\<forall>a name. hasfields_Attr h' a name = hasfields_Attr h a name)"
proof -
  from ok have wf: "wf_heap h" and c: "frozen_closed h" by (simp_all add: heap_ok_def)
  from Freeze_returns(1) [OF wf v fuel] obtain h' where run: "Freeze fuel h v = Some h'" ..
  have m: "freezes_more h h'" by (rule Freeze_freezes_more(1) [OF run])
  from Freeze_post(1) [OF run] have fv: "all_frozen h' (refs v)" and n: "newly_closed h h'"
    by simp_all
  have c': "frozen_closed h'" by (rule frozen_closed_after [OF c m n])
  have "SetField h' b name x = Some (h', Some (Error ''cannot set field on a frozen hasfields''))"
    if a: "a \<in> set (refs v)" and r: "reaches h' a b" for a b name x
  proof -
    from fv a have "a < length h' \<and> frozen (h' ! a)" by (simp add: all_frozen_def list_all_iff)
    with reaches_frozen [OF c' r] have "b < length h' \<and> frozen (h' ! b)" by simp
    then show ?thesis by (simp add: SetField_frozen)
  qed
  moreover have "hasfields_Attr h' a name = hasfields_Attr h a name" for a name
    by (rule hasfields_Attr_mono [OF m])
  moreover have "freeze fuel h [v] [] = Some (h', Inr v)"
    by (simp add: freeze_def run)
  ultimately show ?thesis by blast
qed

text \<open>
  A witness for C3: three objects, the first two pointing at each other, the second
  holding the third through a module. Freezing the first freezes all three, and setting
  a field of the third then fails.
\<close>

theorem freeze_makes_descendants_immutable_witness:
  "freeze 4
     [\<lparr>attrs = [(''next'', HasFieldsP 1)], frozen = False\<rparr>,
      \<lparr>attrs = [(''back'', HasFieldsP 0), (''lib'', ModuleP ''lib'' [(''f'', HasFieldsP 2)])],
       frozen = False\<rparr>,
      \<lparr>attrs = [(''n'', IntV 7)], frozen = False\<rparr>]
     [HasFieldsP 0] [] =
   Some
     ([\<lparr>attrs = [(''next'', HasFieldsP 1)], frozen = True\<rparr>,
       \<lparr>attrs = [(''back'', HasFieldsP 0), (''lib'', ModuleP ''lib'' [(''f'', HasFieldsP 2)])],
        frozen = True\<rparr>,
       \<lparr>attrs = [(''n'', IntV 7)], frozen = True\<rparr>],
      Inr (HasFieldsP 0)) \<and>
   SetField
     [\<lparr>attrs = [(''next'', HasFieldsP 1)], frozen = True\<rparr>,
      \<lparr>attrs = [(''back'', HasFieldsP 0), (''lib'', ModuleP ''lib'' [(''f'', HasFieldsP 2)])],
       frozen = True\<rparr>,
      \<lparr>attrs = [(''n'', IntV 7)], frozen = True\<rparr>]
     2 ''n'' (IntV 8) =
   Some
     ([\<lparr>attrs = [(''next'', HasFieldsP 1)], frozen = True\<rparr>,
       \<lparr>attrs = [(''back'', HasFieldsP 0), (''lib'', ModuleP ''lib'' [(''f'', HasFieldsP 2)])],
        frozen = True\<rparr>,
       \<lparr>attrs = [(''n'', IntV 7)], frozen = True\<rparr>],
      Some (Error ''cannot set field on a frozen hasfields''))"
proof -
  let ?h = "[\<lparr>attrs = [(''next'', HasFieldsP 1)], frozen = False\<rparr>,
      \<lparr>attrs = [(''back'', HasFieldsP 0), (''lib'', ModuleP ''lib'' [(''f'', HasFieldsP 2)])],
       frozen = False\<rparr>,
      \<lparr>attrs = [(''n'', IntV 7)], frozen = False\<rparr>]"
  let ?h' = "[\<lparr>attrs = [(''next'', HasFieldsP 1)], frozen = True\<rparr>,
      \<lparr>attrs = [(''back'', HasFieldsP 0), (''lib'', ModuleP ''lib'' [(''f'', HasFieldsP 2)])],
       frozen = True\<rparr>,
      \<lparr>attrs = [(''n'', IntV 7)], frozen = True\<rparr>]"
  have ok: "heap_ok ?h"
    by (simp add: heap_ok_def wf_heap_def frozen_closed_def in_heap_def all_frozen_def)
  have v: "in_heap ?h (refs (HasFieldsP 0))" by (simp add: in_heap_def)
  have fuel: "unfrozen_count ?h < 4" by (simp add: unfrozen_count_def)
  have run: "freeze 4 ?h [HasFieldsP 0] [] = Some (?h', Inr (HasFieldsP 0))"
    by (simp add: freeze_def eval_nat_numeral)
  have "reaches ?h' 0 0" by (rule reaches.here)
  then have "reaches ?h' 0 1" by (rule reaches.step) (simp_all add: kids_def)
  then have r: "reaches ?h' 0 2" by (rule reaches.step) (simp_all add: kids_def)
  from freeze_makes_descendants_immutable [OF ok v fuel] run
  have "\<forall>a \<in> set (refs (HasFieldsP 0)). \<forall>b. reaches ?h' a b \<longrightarrow>
          (\<forall>name x. SetField ?h' b name x =
             Some (?h', Some (Error ''cannot set field on a frozen hasfields'')))"
    by simp
  with r have "SetField ?h' 2 ''n'' (IntV 8) =
      Some (?h', Some (Error ''cannot set field on a frozen hasfields''))"
    by simp
  with run show ?thesis by simp
qed

section \<open>Attribute lookup on a module\<close>

text \<open>
  C9, as stated: for a name that is not among a module's members, \<open>Attr\<close> reports the
  "no such attribute" sentinel and never a null value together with success. The code
  does the opposite. For the module \<open>m\<close> with the single member \<open>a = 1\<close>, looking up the
  missing name \<open>b\<close> returns a nil value and a nil error.
\<close>

theorem Module_Attr_missing_counterexample:
  "Module_Attr \<lparr>Name = ''m'', Members = [(''a'', Some (IntV 1))]\<rparr> ''b'' = (None, None)"
  by (simp add: Module_Attr_def)

text \<open>
  C9, amended: for every module and every attribute name that is not among its members,
  \<open>Attr\<close> returns a nil value together with a nil error; the pair (nil, nil), not the
  "no such attribute" sentinel, is what a missing name gives.
\<close>

theorem Module_Attr_absent_is_nil_nil:
  "name \<notin> fst ` set (Members m) \<Longrightarrow> Module_Attr m name = (None, None)"
  by (simp add: Module_Attr_def map_of_eq_None_iff [THEN iffD2])

text \<open>
  A witness for C9 as amended: a module with two members, one of them nil, and a name
  that is neither.
\<close>

theorem Module_Attr_absent_is_nil_nil_witness:
  "''c'' \<notin> fst ` set (Members \<lparr>Name = ''m'', Members = [(''a'', Some (IntV 1)), (''b'', None)]\<rparr>) \<and>
   Module_Attr \<lparr>Name = ''m'', Members = [(''a'', Some (IntV 1)), (''b'', None)]\<rparr> ''c'' =
     (None, None)"
proof -
  have absent:
    "''c'' \<notin> fst ` set (Members \<lparr>Name = ''m'', Members = [(''a'', Some (IntV 1)), (''b'', None)]\<rparr>)"
    by simp
  from absent Module_Attr_absent_is_nil_nil [OF absent] show ?thesis by simp
qed

text \<open>
  The same pair does not tell a caller that the name is missing: a member that holds nil
  gives it too, and a member that holds a value gives the value. \<open>Attr\<close> returns no error
  in any case.
\<close>

lemma Module_Attr_nil_member:
  "Module_Attr \<lparr>Name = ''m'', Members = [(''a'', None)]\<rparr> ''a'' = (None, None)"
  by (simp add: Module_Attr_def)

lemma Module_Attr_member:
  "map_of (Members m) name = Some v \<Longrightarrow> Module_Attr m name = (v, None)"
  by (simp add: Module_Attr_def)

lemma Module_Attr_no_error: "snd (Module_Attr m name) = None"
  by (simp add: Module_Attr_def)

section \<open>Conversions of Int to machine integers\<close>

lemma sint64_fits: "sint (word_of_int v :: 64 word) = v \<longleftrightarrow> - (2 ^ 63) \<le> v \<and> v < 2 ^ 63"
  by (simp add: sint_sbintrunc' signed_take_bit_int_eq_self_iff)

lemma uint64_fits: "uint (word_of_int v :: 64 word) = v \<longleftrightarrow> 0 \<le> v \<and> v < 2 ^ 64"
  by (simp add: uint_word_of_int_eq take_bit_int_eq_self_iff)

lemma Int64_by_range:
  "Int64 v = (if MinInt64 \<le> v \<and> v \<le> MaxInt64 then Some (word_of_int v) else None)"
  unfolding Int64_def Let_def sint64_fits by (simp add: MinInt64_def MaxInt64_def)

lemma Uint64_by_range:
  "Uint64 v = (if 0 \<le> v \<and> v \<le> MaxUint64 then Some (word_of_int v) else None)"
  unfolding Uint64_def Let_def uint64_fits by (simp add: MaxUint64_def)

text \<open>
  C7: for every \<open>Int\<close> \<open>v\<close>, the conversion to a signed 64-bit integer succeeds if and only
  if \<open>MinInt64 \<le> v \<le> MaxInt64\<close> (so it fails for \<open>MinInt64 - 1\<close> and below and for
  \<open>MaxInt64 + 1\<close> and above), and the conversion to an unsigned 64-bit integer succeeds if
  and only if \<open>0 \<le> v \<le> MaxUint64\<close> (so it fails for every negative value and for
  \<open>MaxUint64 + 1\<close> and above).
\<close>

theorem Int64_Uint64_succeed_iff_in_range:
  "(Int64 v \<noteq> None \<longleftrightarrow> MinInt64 \<le> v \<and> v \<le> MaxInt64) \<and>
   (Uint64 v \<noteq> None \<longleftrightarrow> 0 \<le> v \<and> v \<le> MaxUint64)"
  by (simp add: Int64_by_range Uint64_by_range)

text \<open>A conversion that succeeds is exact.\<close>

lemma Int64_exact: "Int64 v = Some w \<Longrightarrow> sint w = v"
  by (auto simp: Int64_def Let_def split: if_splits)

lemma Uint64_exact: "Uint64 v = Some w \<Longrightarrow> uint w = v"
  by (auto simp: Uint64_def Let_def split: if_splits)

text \<open>
  The eight rows of \<open>TestInt\<close>, in its order: the value, then what \<open>Int64\<close> and \<open>Uint64\<close>
  give ("error" in the table is \<open>None\<close>).
\<close>

lemma TestInt_rows:
  "Int64 (MinInt64 - 1) = None" "Uint64 (MinInt64 - 1) = None"
  "Int64 MinInt64 = Some (word_of_int (- 9223372036854775808))" "Uint64 MinInt64 = None"
  "Int64 (- 1) = Some (word_of_int (- 1))" "Uint64 (- 1) = None"
  "Int64 0 = Some (word_of_int 0)" "Uint64 0 = Some (word_of_int 0)"
  "Int64 1 = Some (word_of_int 1)" "Uint64 1 = Some (word_of_int 1)"
  "Int64 MaxInt64 = Some (word_of_int 9223372036854775807)"
  "Uint64 MaxInt64 = Some (word_of_int 9223372036854775807)"
  "Int64 MaxUint64 = None" "Uint64 MaxUint64 = Some (word_of_int 18446744073709551615)"
  "Int64 (MaxUint64 + 1) = None" "Uint64 (MaxUint64 + 1) = None"
  unfolding Int64_by_range Uint64_by_range
  by (simp_all add: MinInt64_def MaxInt64_def MaxUint64_def)

end
